theory Spec2Isabelle
  imports Main "HOL-Library.AList"
begin

section \<open>Runtime values and the reflection the registry relies on\<close>

text \<open>
  The registry stores arbitrary JavaScript values. A value is a primitive or a reference
  to an object; two references are identical exactly when their addresses are equal, so
  equality of \<open>jsval\<close> is reference identity on objects. The registry never computes
  with a number, so its payload is kept as an integer.
\<close>

type_synonym addr = nat

datatype jsval =
    Undefined
  | Null
  | Boolean bool
  | Number int
  | String string
  | BigInt int
  | Symbol nat
  | Object addr

text \<open>
  The built-in constructor functions the code can meet: the wrappers that a property read
  on a primitive goes through, the global \<open>Object\<close> that line 38 falls back to, and
  \<open>Function\<close>, the constructor of every class and function.
\<close>

datatype intrinsic =
  ObjectCtor | FunctionCtor | BooleanCtor | NumberCtor | StringCtor | BigIntCtor | SymbolCtor

datatype funref = Intrinsic intrinsic | Function addr

text \<open>
  The cast on line 31, \<^verbatim>\<open>instance as { constructor?: { name?: string } }\<close>, fixes what
  the code reads from an object: its \<open>constructor\<close> property, which is undefined
  (\<open>None\<close>) or a reference, and that constructor's \<open>name\<close> property, which is undefined
  or a string. The heap gives both reads for every allocated object.
\<close>

record jsobject =
  constructor_prop :: "funref option"
  name_prop :: "string option"

type_synonym heap = "addr \<Rightarrow> jsobject"

datatype error = Error string | TypeError

fun intrinsic_name :: "intrinsic \<Rightarrow> string" where
  "intrinsic_name ObjectCtor = ''Object''"
| "intrinsic_name FunctionCtor = ''Function''"
| "intrinsic_name BooleanCtor = ''Boolean''"
| "intrinsic_name NumberCtor = ''Number''"
| "intrinsic_name StringCtor = ''String''"
| "intrinsic_name BigIntCtor = ''BigInt''"
| "intrinsic_name SymbolCtor = ''Symbol''"

text \<open>
  \<^verbatim>\<open>instanceObj.constructor\<close>: reading a property of \<open>undefined\<close> or \<open>null\<close> throws a
  TypeError; a primitive is read through its wrapper's prototype; an object gives the
  value of its (own or inherited) property.
\<close>

fun read_constructor :: "heap \<Rightarrow> jsval \<Rightarrow> error + funref option" where
  "read_constructor h Undefined = Inl TypeError"
| "read_constructor h Null = Inl TypeError"
| "read_constructor h (Boolean b) = Inr (Some (Intrinsic BooleanCtor))"
| "read_constructor h (Number k) = Inr (Some (Intrinsic NumberCtor))"
| "read_constructor h (String s) = Inr (Some (Intrinsic StringCtor))"
| "read_constructor h (BigInt k) = Inr (Some (Intrinsic BigIntCtor))"
| "read_constructor h (Symbol k) = Inr (Some (Intrinsic SymbolCtor))"
| "read_constructor h (Object a) = Inr (constructor_prop (h a))"

fun read_name :: "heap \<Rightarrow> funref \<Rightarrow> string option" where
  "read_name h (Intrinsic i) = Some (intrinsic_name i)"
| "read_name h (Function a) = name_prop (h a)"

text \<open>\<^verbatim>\<open>c?.name\<close>: the optional chain gives undefined when \<open>c\<close> is undefined.\<close>

definition optional_name :: "heap \<Rightarrow> funref option \<Rightarrow> string option" where
  "optional_name h c = (case c of None \<Rightarrow> None | Some f \<Rightarrow> read_name h f)"

text \<open>
  \<^verbatim>\<open>a || b\<close> on a string that may be undefined: undefined and the empty string are
  falsy, every other string is truthy.
\<close>

definition or_string :: "string option \<Rightarrow> string \<Rightarrow> string" where
  "or_string a b = (case a of None \<Rightarrow> b | Some s \<Rightarrow> if s = [] then b else s)"

text \<open>\<^verbatim>\<open>c || Object\<close> on a reference that may be undefined: a reference is truthy.\<close>

definition or_Object :: "funref option \<Rightarrow> funref" where
  "or_Object c = (case c of None \<Rightarrow> Intrinsic ObjectCtor | Some f \<Rightarrow> f)"

section \<open>The built-in Map\<close>

text \<open>
  A JavaScript \<open>Map\<close> keeps its entries in insertion order: \<open>set\<close> replaces the value
  of a key that is present where it stands and appends a key that is not.
\<close>

type_synonym ('k, 'v) Map = "('k \<times> 'v) list"

definition Map_has :: "('k, 'v) Map \<Rightarrow> 'k \<Rightarrow> bool" where
  "Map_has m k = (k \<in> set (map fst m))"

definition Map_get :: "('k, 'v) Map \<Rightarrow> 'k \<Rightarrow> 'v option" where
  "Map_get m k = map_of m k"

definition Map_set :: "('k, 'v) Map \<Rightarrow> 'k \<Rightarrow> 'v \<Rightarrow> ('k, 'v) Map" where
  "Map_set m k v = AList.update k v m"

definition Map_clear :: "('k, 'v) Map \<Rightarrow> ('k, 'v) Map" where
  "Map_clear m = []"

definition Map_values :: "('k, 'v) Map \<Rightarrow> 'v list" where
  "Map_values m = map snd m"

section \<open>The Registry class\<close>

record RegistryEntry =
  name :: string
  "instance" :: jsval
  type :: string
  constructor :: funref

record Registry =
  entries :: "(string, RegistryEntry) Map"

text \<open>The field initialiser of line 15: a new registry has an empty map.\<close>

definition new_Registry :: Registry where
  "new_Registry = \<lparr>entries = []\<rparr>"

definition quoted :: "string \<Rightarrow> string" where
  "quoted n = [CHR 0x27] @ n @ [CHR 0x27]"

text \<open>
  A method that mutates returns its outcome together with the registry after the call;
  a throw leaves the registry as the statements before it left it.
\<close>

definition register ::
  "heap \<Rightarrow> Registry \<Rightarrow> string \<Rightarrow> jsval \<Rightarrow> string option \<Rightarrow> (error + unit) \<times> Registry" where
  "register h r n x t =
     (if Map_has (entries r) n
      then (Inl (Error (''Instance '' @ quoted n @ '' already registered'')), r)
      else
        (case read_constructor h x of
           Inl e \<Rightarrow> (Inl e, r)
         | Inr c \<Rightarrow>
             (let constructorName = or_string (optional_name h c) ''Unknown'';
                  entry = \<lparr>name = n, instance = x, type = or_string t constructorName,
                    constructor = or_Object c\<rparr>
              in (Inr (), r\<lparr>entries := Map_set (entries r) n entry\<rparr>))))"

definition get :: "Registry \<Rightarrow> string \<Rightarrow> error + jsval" where
  "get r n =
     (case Map_get (entries r) n of
        None \<Rightarrow> Inl (Error (''Instance '' @ quoted n @ '' not found''))
      | Some entry \<Rightarrow> Inr (instance entry))"

definition getEntry :: "Registry \<Rightarrow> string \<Rightarrow> RegistryEntry option" where
  "getEntry r n = Map_get (entries r) n"

definition has :: "Registry \<Rightarrow> string \<Rightarrow> bool" where
  "has r n = Map_has (entries r) n"

definition list :: "Registry \<Rightarrow> (string \<times> string) list" where
  "list r = map (\<lambda>entry. (name entry, type entry)) (Map_values (entries r))"

definition clear :: "Registry \<Rightarrow> Registry" where
  "clear r = r\<lparr>entries := Map_clear (entries r)\<rparr>"

text \<open>
  The two error kinds of the specification. The source throws a plain \<open>Error\<close> in both
  places; the message tells them apart.
\<close>

definition DuplicateNameError :: "string \<Rightarrow> error" where
  "DuplicateNameError n = Error (''Instance '' @ quoted n @ '' already registered'')"

definition NotFoundError :: "string \<Rightarrow> error" where
  "NotFoundError n = Error (''Instance '' @ quoted n @ '' not found'')"

section \<open>Calls on a registry\<close>

text \<open>
  One call of a public method, with what it returns or throws and the registry it
  leaves. The field \<open>#entries\<close> is private, so these calls are the only way a registry
  changes.
\<close>

datatype call =
    CallRegister heap string jsval "string option"
  | CallGet string
  | CallGetEntry string
  | CallHas string
  | CallList
  | CallClear

datatype result =
    Void
  | Instance jsval
  | Entry "RegistryEntry option"
  | Flag bool
  | Listing "(string \<times> string) list"

fun invoke :: "Registry \<Rightarrow> call \<Rightarrow> (error + result) \<times> Registry" where
  "invoke r (CallRegister h n x t) =
     (case register h r n x t of (Inl e, r') \<Rightarrow> (Inl e, r') | (Inr u, r') \<Rightarrow> (Inr Void, r'))"
| "invoke r (CallGet n) =
     (case get r n of Inl e \<Rightarrow> (Inl e, r) | Inr v \<Rightarrow> (Inr (Instance v), r))"
| "invoke r (CallGetEntry n) = (Inr (Entry (getEntry r n)), r)"
| "invoke r (CallHas n) = (Inr (Flag (has r n)), r)"
| "invoke r CallList = (Inr (Listing (list r)), r)"
| "invoke r CallClear = (Inr Void, clear r)"

fun invoke_all :: "Registry \<Rightarrow> call list \<Rightarrow> Registry" where
  "invoke_all r [] = r"
| "invoke_all r (c # cs) = invoke_all (snd (invoke r c)) cs"

text \<open>
  What every registry built by calls satisfies: the keys of the map are distinct (the
  built-in Map guarantees it) and each entry is stored under its own name.
\<close>

definition registry_inv :: "Registry \<Rightarrow> bool" where
  "registry_inv r =
     (distinct (map fst (entries r)) \<and> list_all (\<lambda>(k, e). name e = k) (entries r))"

text \<open>
  The objects of the test suite: at address 0 an instance of \<^verbatim>\<open>class TestClass {}\<close>, at
  address 1 that class, at address 5 an object without a constructor (as
  \<^verbatim>\<open>Object.create(null)\<close> makes one), and object literals everywhere else.
\<close>

definition test_heap :: heap where
  "test_heap a =
     (if a = 0 then \<lparr>constructor_prop = Some (Function 1), name_prop = None\<rparr>
      else if a = 1 then
        \<lparr>constructor_prop = Some (Intrinsic FunctionCtor), name_prop = Some ''TestClass''\<rparr>
      else if a = 5 then \<lparr>constructor_prop = None, name_prop = None\<rparr>
      else \<lparr>constructor_prop = Some (Intrinsic ObjectCtor), name_prop = None\<rparr>)"

section \<open>The process-wide accessor\<close>

text \<open>
  Registry objects live in a store, by address. The module constant
  \<open>registryInstance\<close> holds the address of the registry made when the module is loaded;
  no statement assigns it again.
\<close>

record process =
  store :: "addr \<Rightarrow> Registry"
  next_addr :: addr
  registryInstance :: addr

text \<open>\<^verbatim>\<open>new Registry()\<close>: a fresh address, holding a new registry.\<close>

definition construct_Registry :: "process \<Rightarrow> addr \<times> process" where
  "construct_Registry p =
     (next_addr p,
      p\<lparr>store := (store p)(next_addr p := new_Registry), next_addr := Suc (next_addr p)\<rparr>)"

text \<open>Line 100, run once when the module is loaded.\<close>

definition module_load :: "process \<Rightarrow> process" where
  "module_load p = (case construct_Registry p of (a, p') \<Rightarrow> p'\<lparr>registryInstance := a\<rparr>)"

text \<open>
  The process before the module is loaded: nothing is allocated yet, and the binding of
  \<open>registryInstance\<close> is not initialised (its value here is never read).
\<close>

definition initial_process :: process where
  "initial_process = \<lparr>store = (\<lambda>a. new_Registry), next_addr = 0, registryInstance = 0\<rparr>"

definition getRegistry :: "process \<Rightarrow> addr" where
  "getRegistry p = registryInstance p"

text \<open>A method call through a reference acts on the registry at that address.\<close>

definition invoke_on :: "process \<Rightarrow> addr \<Rightarrow> call \<Rightarrow> (error + result) \<times> process" where
  "invoke_on p a c =
     (case invoke (store p a) c of (res, r') \<Rightarrow> (res, p\<lparr>store := (store p)(a := r')\<rparr>))"

datatype pstep = Invoke addr call | NewRegistry

fun pstep_run :: "process \<Rightarrow> pstep \<Rightarrow> process" where
  "pstep_run p (Invoke a c) = snd (invoke_on p a c)"
| "pstep_run p NewRegistry = snd (construct_Registry p)"

fun psteps_run :: "process \<Rightarrow> pstep list \<Rightarrow> process" where
  "psteps_run p [] = p"
| "psteps_run p (s # ss) = psteps_run (pstep_run p s) ss"

section \<open>Facts about the Map and about single calls\<close>

lemma Map_has_get: "Map_has m k \<longleftrightarrow> Map_get m k \<noteq> None"
  by (simp add: Map_has_def Map_get_def map_of_eq_None_iff)

lemma Map_set_fresh: "\<not> Map_has m k \<Longrightarrow> Map_set m k v = m @ [(k, v)]"
  unfolding Map_has_def Map_set_def by (induction m) auto

lemma error_kinds_distinct: "DuplicateNameError n \<noteq> NotFoundError m"
proof
  assume "DuplicateNameError n = NotFoundError m"
  then have "rev (''Instance '' @ quoted n @ '' already registered'') =
      rev (''Instance '' @ quoted m @ '' not found'')"
    by (simp add: DuplicateNameError_def NotFoundError_def)
  then show False by simp
qed

text \<open>The three ways a call of register ends.\<close>

lemma register_cases:
  "register h r n x t =
     (if has r n then (Inl (DuplicateNameError n), r)
      else if x = Undefined \<or> x = Null then (Inl TypeError, r)
      else (Inr (), r\<lparr>entries := entries r @ [(n, \<lparr>name = n, instance = x,
              type = or_string t (or_string (optional_name h (projr (read_constructor h x))) ''Unknown''),
              constructor = or_Object (projr (read_constructor h x))\<rparr>)]\<rparr>))"
  by (cases x) (simp_all add: register_def has_def DuplicateNameError_def Map_set_fresh)

lemma register_success:
  assumes "register h r n x t = (Inr (), r')"
  shows "\<not> has r n" and "x \<noteq> Undefined" and "x \<noteq> Null"
    and "entries r' = entries r @ [(n, \<lparr>name = n, instance = x,
              type = or_string t (or_string (optional_name h (projr (read_constructor h x))) ''Unknown''),
              constructor = or_Object (projr (read_constructor h x))\<rparr>)]"
  using assms by (auto simp: register_cases split: if_splits)

lemma register_failure:
  assumes "register h r n x t = (Inl e, r')"
  shows "r' = r"
  using assms by (auto simp: register_cases split: if_splits)

lemma registry_inv_new: "registry_inv new_Registry"
  by (simp add: registry_inv_def new_Registry_def)

lemma registry_inv_clear: "registry_inv (clear r)"
  by (simp add: registry_inv_def clear_def Map_clear_def)

lemma registry_inv_register:
  assumes "registry_inv r"
  shows "registry_inv (snd (register h r n x t))"
  using assms by (auto simp: register_cases registry_inv_def has_def Map_has_def)

lemma registry_inv_invoke:
  assumes "registry_inv r"
  shows "registry_inv (snd (invoke r c))"
proof (cases c)
  case (CallRegister h n x t)
  have "snd (invoke r c) = snd (register h r n x t)"
    by (simp add: CallRegister split: prod.splits sum.splits)
  then show ?thesis using assms by (simp add: registry_inv_register)
next
  case CallClear
  then show ?thesis by (simp add: registry_inv_clear)
qed (use assms in \<open>simp_all split: sum.splits\<close>)

lemma registry_inv_invoke_all:
  "registry_inv r \<Longrightarrow> registry_inv (invoke_all r cs)"
  by (induction cs arbitrary: r) (simp_all add: registry_inv_invoke)

lemma getEntry_invoke:
  assumes "getEntry r n = Some e" and "c \<noteq> CallClear"
  shows "getEntry (snd (invoke r c)) n = Some e"
proof (cases c)
  case (CallRegister h m x t)
  have *: "snd (invoke r c) = snd (register h r m x t)"
    by (simp add: CallRegister split: prod.splits sum.splits)
  show ?thesis using assms(1) unfolding *
    by (auto simp: register_cases getEntry_def Map_get_def has_def Map_has_get)
qed (use assms in \<open>simp_all split: sum.splits\<close>)

lemma getEntry_invoke_all:
  assumes "getEntry r n = Some e" and "CallClear \<notin> set cs"
  shows "getEntry (invoke_all r cs) n = Some e"
  using assms
proof (induction cs arbitrary: r)
  case Nil
  then show ?case by simp
next
  case (Cons c cs)
  from Cons.prems have "getEntry (snd (invoke r c)) n = Some e"
    by (intro getEntry_invoke) auto
  with Cons show ?case by simp
qed

lemma getEntry_registered:
  assumes "register h r n x t = (Inr (), r')"
  shows "getEntry r' n = Some \<lparr>name = n, instance = x,
              type = or_string t (or_string (optional_name h (projr (read_constructor h x))) ''Unknown''),
              constructor = or_Object (projr (read_constructor h x))\<rparr>"
proof -
  have "map_of (entries r) n = None"
    using register_success(1)[OF assms] by (simp add: has_def Map_has_def map_of_eq_None_iff)
  then show ?thesis
    by (simp add: getEntry_def Map_get_def register_success(4)[OF assms] map_add_def)
qed

lemma get_via_getEntry:
  "get r n = (case getEntry r n of None \<Rightarrow> Inl (NotFoundError n) | Some e \<Rightarrow> Inr (instance e))"
  by (simp add: get_def getEntry_def NotFoundError_def split: option.splits)

lemma has_via_getEntry: "has r n \<longleftrightarrow> getEntry r n \<noteq> None"
  by (simp add: has_def getEntry_def Map_has_get)


lemma list_under_inv:
  assumes "registry_inv r"
  shows "list r = map (\<lambda>(k, e). (k, type e)) (entries r)"
  using assms by (auto simp: list_def Map_values_def registry_inv_def list_all_iff)

lemma has_set: "{n. has r n} = set (map fst (entries r))"
  by (auto simp: has_def Map_has_def)

lemma list_length_inv:
  assumes "registry_inv r"
  shows "length (list r) = card {n. has r n}"
proof -
  have "card (set (map fst (entries r))) = length (map fst (entries r))"
    using assms by (intro distinct_card) (simp add: registry_inv_def)
  then show ?thesis by (simp add: has_set list_def Map_values_def)
qed

lemma list_set_inv:
  assumes "registry_inv r"
  shows "set (list r) = {(n, ty). \<exists>e. getEntry r n = Some e \<and> type e = ty}"
proof -
  have d: "distinct (map fst (entries r))" using assms by (simp add: registry_inv_def)
  have "getEntry r n = Some e \<longleftrightarrow> (n, e) \<in> set (entries r)" for n e
    using d by (simp add: getEntry_def Map_get_def)
  then show ?thesis
    by (force simp: list_under_inv[OF assms])
qed

lemma list_names_inv:
  assumes "registry_inv r"
  shows "map fst (list r) = map fst (entries r)"
  by (simp add: list_under_inv[OF assms] case_prod_beta comp_def)

lemma list_empty_iff: "list r = [] \<longleftrightarrow> (\<forall>n. \<not> has r n)"
proof -
  have "list r = [] \<longleftrightarrow> entries r = []" by (simp add: list_def Map_values_def)
  also have "\<dots> \<longleftrightarrow> set (map fst (entries r)) = {}" by simp
  also have "\<dots> \<longleftrightarrow> (\<forall>n. \<not> has r n)" unfolding has_set[symmetric] by blast
  finally show ?thesis .
qed


lemma getRegistry_invoke_on: "getRegistry (snd (invoke_on p a c)) = getRegistry p"
  by (simp add: getRegistry_def invoke_on_def split: prod.splits)

lemma getRegistry_pstep: "getRegistry (pstep_run p s) = getRegistry p"
  by (cases s) (simp_all add: getRegistry_invoke_on, simp add: getRegistry_def construct_Registry_def)

lemma getRegistry_psteps: "getRegistry (psteps_run p ss) = getRegistry p"
  by (induction ss arbitrary: p) (simp_all add: getRegistry_pstep)

text \<open>
  Registering \<open>undefined\<close> or \<open>null\<close> under a free name throws the TypeError of the
  property read on line 32 and stores nothing.
\<close>

lemma register_nullish:
  assumes "\<not> has r n" and "x = Undefined \<or> x = Null"
  shows "register h r n x t = (Inl TypeError, r)"
  using assms by (auto simp: register_cases)

text \<open>Every other value can be registered under a free name.\<close>

lemma register_succeeds:
  assumes "\<not> has r n" and "x \<noteq> Undefined" and "x \<noteq> Null"
  shows "fst (register h r n x t) = Inr ()"
  using assms by (simp add: register_cases)

text \<open>
  The label inferred when the type is omitted, by the kind of instance: a primitive gets
  the name of its wrapper, an object the name of its constructor, and \<open>Unknown\<close> is
  left for an object without a constructor or with a constructor without a name.
\<close>

lemma inferred_label_primitive:
  assumes "\<not> has r n"
  shows "map_option type (getEntry (snd (register h r n (Boolean b) None)) n) = Some ''Boolean''"
    and "map_option type (getEntry (snd (register h r n (Number k) None)) n) = Some ''Number''"
    and "map_option type (getEntry (snd (register h r n (String s) None)) n) = Some ''String''"
    and "map_option type (getEntry (snd (register h r n (BigInt k) None)) n) = Some ''BigInt''"
    and "map_option type (getEntry (snd (register h r n (Symbol j) None)) n) = Some ''Symbol''"
  using assms
  by (simp_all add: register_def has_def getEntry_def Map_get_def Map_set_def update_conv'
      optional_name_def or_string_def)

lemma inferred_label_object:
  assumes "\<not> has r n"
  shows "map_option type (getEntry (snd (register h r n (Object a) None)) n) =
     Some (case constructor_prop (h a) of
             None \<Rightarrow> ''Unknown''
           | Some f \<Rightarrow>
               (case read_name h f of
                  None \<Rightarrow> ''Unknown''
                | Some s \<Rightarrow> if s = [] then ''Unknown'' else s))"
  using assms
  by (simp add: register_def has_def getEntry_def Map_get_def Map_set_def update_conv'
      optional_name_def or_string_def split: option.splits)

lemmas process_eval =
  invoke_on_def getRegistry_def module_load_def construct_Registry_def initial_process_def

lemmas registry_eval =
  register_def get_def getEntry_def has_def list_def clear_def new_Registry_def
  Map_has_def Map_get_def Map_set_def Map_clear_def Map_values_def
  optional_name_def or_string_def or_Object_def test_heap_def quoted_def
  DuplicateNameError_def NotFoundError_def Let_def

section \<open>The properties of the specification\<close>

subsection \<open>C1: get returns the registered reference\<close>

text \<open>
  C1. When \<open>register(n, x, type?)\<close> succeeds, \<open>get(n)\<close> returns \<open>x\<close> itself (for an
  object, the same address), and it goes on doing so after any further calls of the
  registry's methods other than \<open>clear()\<close>; \<open>get\<close> leaves the registry as it was.
\<close>

theorem register_then_get:
  assumes "register h r n x t = (Inr (), r')" and "CallClear \<notin> set cs"
  shows "invoke (invoke_all r' cs) (CallGet n) = (Inr (Instance x), invoke_all r' cs)"
proof -
  from getEntry_invoke_all[OF getEntry_registered[OF assms(1)] assms(2)]
  show ?thesis by (simp add: get_via_getEntry)
qed

text \<open>An object literal registered as \<open>test\<close>, read back after four more calls.\<close>

theorem register_then_get_witness:
  "register test_heap new_Registry ''test'' (Object 2) None =
     (Inr (), \<lparr>entries = [(''test'', \<lparr>name = ''test'', instance = Object 2, type = ''Object'',
        constructor = Intrinsic ObjectCtor\<rparr>)]\<rparr>)
   \<and> CallClear \<notin> set [CallGet ''test'', CallRegister test_heap ''test'' (Object 3) None,
        CallRegister test_heap ''other'' (Object 3) (Some ''Other''), CallList]
   \<and> invoke (invoke_all \<lparr>entries = [(''test'', \<lparr>name = ''test'', instance = Object 2,
          type = ''Object'', constructor = Intrinsic ObjectCtor\<rparr>)]\<rparr>
        [CallGet ''test'', CallRegister test_heap ''test'' (Object 3) None,
         CallRegister test_heap ''other'' (Object 3) (Some ''Other''), CallList])
        (CallGet ''test'')
     = (Inr (Instance (Object 2)),
        \<lparr>entries = [(''test'', \<lparr>name = ''test'', instance = Object 2, type = ''Object'',
            constructor = Intrinsic ObjectCtor\<rparr>),
          (''other'', \<lparr>name = ''other'', instance = Object 3, type = ''Other'',
            constructor = Intrinsic ObjectCtor\<rparr>)]\<rparr>)"
proof -
  have a: "register test_heap new_Registry ''test'' (Object 2) None =
     (Inr (), \<lparr>entries = [(''test'', \<lparr>name = ''test'', instance = Object 2, type = ''Object'',
        constructor = Intrinsic ObjectCtor\<rparr>)]\<rparr>)"
    by (simp add: registry_eval)
  have b: "CallClear \<notin> set [CallGet ''test'', CallRegister test_heap ''test'' (Object 3) None,
        CallRegister test_heap ''other'' (Object 3) (Some ''Other''), CallList]"
    by simp
  have c: "invoke_all \<lparr>entries = [(''test'', \<lparr>name = ''test'', instance = Object 2,
          type = ''Object'', constructor = Intrinsic ObjectCtor\<rparr>)]\<rparr>
        [CallGet ''test'', CallRegister test_heap ''test'' (Object 3) None,
         CallRegister test_heap ''other'' (Object 3) (Some ''Other''), CallList]
     = \<lparr>entries = [(''test'', \<lparr>name = ''test'', instance = Object 2, type = ''Object'',
            constructor = Intrinsic ObjectCtor\<rparr>),
          (''other'', \<lparr>name = ''other'', instance = Object 3, type = ''Other'',
            constructor = Intrinsic ObjectCtor\<rparr>)]\<rparr>"
    by (simp add: registry_eval)
  show ?thesis
    using a b register_then_get[OF a b] by (simp only: c simp_thms)
qed

subsection \<open>C2: a duplicate name is rejected and nothing changes\<close>

text \<open>
  C2. In every registry in which the name \<open>n\<close> is present, \<open>register(n, y, type?)\<close>
  throws the duplicate-name error and returns the registry it was given, so the first
  entry and what \<open>get(n)\<close> returns are untouched.
\<close>

theorem register_duplicate:
  assumes "has r n"
  shows "register h r n y t = (Inl (DuplicateNameError n), r)
     \<and> getEntry (snd (register h r n y t)) n = getEntry r n
     \<and> get (snd (register h r n y t)) n = get r n"
  using assms by (simp add: register_cases)

text \<open>The second registration of \<open>test\<close> in the test suite.\<close>

theorem register_duplicate_witness:
  "has \<lparr>entries = [(''test'', \<lparr>name = ''test'', instance = Object 2, type = ''Object'',
        constructor = Intrinsic ObjectCtor\<rparr>)]\<rparr> ''test''
   \<and> register test_heap \<lparr>entries = [(''test'', \<lparr>name = ''test'', instance = Object 2,
        type = ''Object'', constructor = Intrinsic ObjectCtor\<rparr>)]\<rparr> ''test'' (Object 3) None
     = (Inl (Error ''Instance 'test' already registered''),
        \<lparr>entries = [(''test'', \<lparr>name = ''test'', instance = Object 2, type = ''Object'',
        constructor = Intrinsic ObjectCtor\<rparr>)]\<rparr>)"
proof -
  have a: "has \<lparr>entries = [(''test'', \<lparr>name = ''test'', instance = Object 2, type = ''Object'',
        constructor = Intrinsic ObjectCtor\<rparr>)]\<rparr> ''test''"
    by (simp add: registry_eval)
  show ?thesis
    using a register_duplicate[OF a, of test_heap "Object 3" None]
    by (simp add: DuplicateNameError_def quoted_def)
qed

subsection \<open>C3: get fails exactly on an absent name\<close>

text \<open>
  C3. On a name that is absent \<open>get(n)\<close> throws the not-found error, and \<open>get(n)\<close>
  throws only when the name is absent.
\<close>

theorem get_fails_iff_absent:
  "(\<not> has r n \<longrightarrow> get r n = Inl (NotFoundError n))
   \<and> ((\<exists>e. get r n = Inl e) \<longleftrightarrow> \<not> has r n)"
  by (auto simp: get_via_getEntry has_via_getEntry split: option.splits)

text \<open>The lookup of \<open>nonexistent\<close> in a new registry.\<close>

theorem get_fails_iff_absent_witness:
  "\<not> has new_Registry ''nonexistent''
   \<and> get new_Registry ''nonexistent'' = Inl (Error ''Instance 'nonexistent' not found'')"
proof -
  have a: "\<not> has new_Registry ''nonexistent''"
    by (simp add: registry_eval)
  show ?thesis
    using a get_fails_iff_absent[of new_Registry "''nonexistent''"]
    by (simp add: NotFoundError_def quoted_def)
qed

subsection \<open>C4: the label when no type is given\<close>

text \<open>
  A primitive has a constructor with a name: the number 42, registered with the type
  omitted, gets the label \<open>Number\<close>, not \<open>Unknown\<close>.
\<close>

theorem register_primitive_label_counterexample:
  "map_option type (getEntry (snd (register test_heap new_Registry ''n'' (Number 42) None)) ''n'')
     = Some ''Number''
   \<and> map_option type
         (getEntry (snd (register test_heap new_Registry ''n'' (Number 42) None)) ''n'')
       \<noteq> Some ''Unknown''"
  by (simp add: registry_eval)

text \<open>
  C4, in the form the code satisfies. When \<open>register(n, x)\<close> succeeds with the type omitted, the stored
  label is the name of the constructor that \<open>x.constructor\<close> reads to, when there is
  one and its name is a non-empty string; it is \<open>Unknown\<close> when \<open>x\<close> has no
  constructor or the constructor's name is missing or empty.
\<close>

theorem register_omitted_type_label:
  assumes "register h r n x None = (Inr (), r')"
  shows "\<exists>c. read_constructor h x = Inr c \<and>
           map_option type (getEntry r' n) =
             Some (case optional_name h c of
                     None \<Rightarrow> ''Unknown''
                   | Some s \<Rightarrow> if s = [] then ''Unknown'' else s)"
proof -
  have "\<exists>c. read_constructor h x = Inr c"
    using register_success(2,3)[OF assms] by (cases x) simp_all
  then show ?thesis using getEntry_registered[OF assms]
    by (auto simp: or_string_def split: option.splits)
qed

text \<open>The instance of \<open>TestClass\<close> of the test suite.\<close>

theorem register_omitted_type_label_witness:
  "register test_heap new_Registry ''test'' (Object 0) None =
     (Inr (), \<lparr>entries = [(''test'', \<lparr>name = ''test'', instance = Object 0,
        type = ''TestClass'', constructor = Function 1\<rparr>)]\<rparr>)
   \<and> map_option type (getEntry \<lparr>entries = [(''test'', \<lparr>name = ''test'', instance = Object 0,
        type = ''TestClass'', constructor = Function 1\<rparr>)]\<rparr> ''test'') = Some ''TestClass''"
proof -
  have a: "register test_heap new_Registry ''test'' (Object 0) None =
     (Inr (), \<lparr>entries = [(''test'', \<lparr>name = ''test'', instance = Object 0,
        type = ''TestClass'', constructor = Function 1\<rparr>)]\<rparr>)"
    by (simp add: registry_eval)
  show ?thesis
    using a register_omitted_type_label[OF a]
    by (auto simp: test_heap_def optional_name_def)
qed

subsection \<open>C5: one registry for the process\<close>

text \<open>
  C5. \<open>getRegistry()\<close> returns the same reference whatever calls were made in between,
  on any registry and through any reference; a name registered through the reference it
  returned is seen, with its instance, through the reference a later call returns.
\<close>

theorem getRegistry_shared:
  assumes "fst (invoke_on p (getRegistry p) (CallRegister h n x t)) = Inr Void"
  shows "getRegistry (psteps_run p ss) = getRegistry p
     \<and> fst (invoke_on (snd (invoke_on p (getRegistry p) (CallRegister h n x t)))
          (getRegistry (snd (invoke_on p (getRegistry p) (CallRegister h n x t))))
          (CallHas n)) = Inr (Flag True)
     \<and> fst (invoke_on (snd (invoke_on p (getRegistry p) (CallRegister h n x t)))
          (getRegistry (snd (invoke_on p (getRegistry p) (CallRegister h n x t))))
          (CallGet n)) = Inr (Instance x)"
proof -
  define p' where "p' = snd (invoke_on p (getRegistry p) (CallRegister h n x t))"
  obtain res r' where reg: "register h (store p (getRegistry p)) n x t = (res, r')"
    by (cases "register h (store p (getRegistry p)) n x t")
  with assms have ok: "res = Inr ()"
    by (auto simp: invoke_on_def split: sum.splits)
  have p': "p' = p\<lparr>store := (store p)(getRegistry p := r')\<rparr>"
    using reg ok by (simp add: p'_def invoke_on_def)
  have same: "getRegistry p' = getRegistry p"
    by (simp add: p' getRegistry_def)
  have cur: "store p' (getRegistry p') = r'"
    by (simp add: p' getRegistry_def)
  have e: "getEntry r' n \<noteq> None" and g: "get r' n = Inr x"
    using getEntry_registered[OF reg[unfolded ok]] by (simp_all add: get_via_getEntry)
  have "fst (invoke_on p' (getRegistry p') (CallHas n)) = Inr (Flag True)"
    using e by (simp add: invoke_on_def cur has_via_getEntry)
  moreover have "fst (invoke_on p' (getRegistry p') (CallGet n)) = Inr (Instance x)"
    using g by (simp add: invoke_on_def cur)
  ultimately show ?thesis
    unfolding p'_def by (simp add: getRegistry_psteps)
qed

text \<open>
  The module loaded into the initial process: its registry is at address 0, and stays the
  one the accessor returns when another registry is made and used.
\<close>

theorem getRegistry_shared_witness:
  "fst (invoke_on (module_load initial_process) (getRegistry (module_load initial_process))
      (CallRegister test_heap ''shared'' (Object 2) None)) = Inr Void
   \<and> getRegistry (psteps_run (module_load initial_process)
        [NewRegistry, Invoke 1 (CallRegister test_heap ''mine'' (Object 3) None),
         Invoke 0 CallClear]) = 0
   \<and> getRegistry (module_load initial_process) = 0
   \<and> fst (invoke_on
        (snd (invoke_on (module_load initial_process) 0
           (CallRegister test_heap ''shared'' (Object 2) None)))
        0 (CallHas ''shared'')) = Inr (Flag True)
   \<and> fst (invoke_on
        (snd (invoke_on (module_load initial_process) 0
           (CallRegister test_heap ''shared'' (Object 2) None)))
        0 (CallGet ''shared'')) = Inr (Instance (Object 2))"
proof -
  have g: "getRegistry (module_load initial_process) = 0"
    by (simp add: process_eval)
  have a: "fst (invoke_on (module_load initial_process) (getRegistry (module_load initial_process))
      (CallRegister test_heap ''shared'' (Object 2) None)) = Inr Void"
    by (simp add: process_eval registry_eval)
  have s: "getRegistry (snd (invoke_on (module_load initial_process) 0
           (CallRegister test_heap ''shared'' (Object 2) None))) = 0"
    using getRegistry_invoke_on[of "module_load initial_process" 0] g by simp
  show ?thesis
    using a g s getRegistry_shared[OF a,
        of "[NewRegistry, Invoke 1 (CallRegister test_heap ''mine'' (Object 3) None),
         Invoke 0 CallClear]"]
    by simp
qed

subsection \<open>C6: list gives one pair for each registered name\<close>

text \<open>
  C6. In every state a registry can reach by calls, \<open>list()\<close> has as many elements as
  there are registered names, its pairs are exactly the pairs of a registered name and
  the type of its entry, no name occurs twice, and the call returns without a throw and
  without a change; the list is empty exactly when no name is registered.
\<close>

theorem list_registered:
  "length (list (invoke_all new_Registry cs)) = card {n. has (invoke_all new_Registry cs) n}
   \<and> set (list (invoke_all new_Registry cs)) =
       {(n, ty). \<exists>e. getEntry (invoke_all new_Registry cs) n = Some e \<and> type e = ty}
   \<and> distinct (map fst (list (invoke_all new_Registry cs)))
   \<and> invoke (invoke_all new_Registry cs) CallList =
       (Inr (Listing (list (invoke_all new_Registry cs))), invoke_all new_Registry cs)
   \<and> (list (invoke_all new_Registry cs) = [] \<longleftrightarrow> (\<forall>n. \<not> has (invoke_all new_Registry cs) n))
   \<and> list new_Registry = []"
proof -
  have inv: "registry_inv (invoke_all new_Registry cs)"
    by (rule registry_inv_invoke_all[OF registry_inv_new])
  have "distinct (map fst (list (invoke_all new_Registry cs)))"
    using inv by (simp add: list_names_inv registry_inv_def)
  moreover have "list new_Registry = []"
    by (simp add: list_def new_Registry_def Map_values_def)
  ultimately show ?thesis
    using list_length_inv[OF inv] list_set_inv[OF inv] list_empty_iff by simp
qed

text \<open>The three registrations of the test suite.\<close>

theorem list_registered_witness:
  "list (invoke_all new_Registry
      [CallRegister test_heap ''redis'' (Object 2) (Some ''Redis''),
       CallRegister test_heap ''kafka'' (Object 3) (Some ''Kafka''),
       CallRegister test_heap ''sqs'' (Object 4) (Some ''SQS'')])
     = [(''redis'', ''Redis''), (''kafka'', ''Kafka''), (''sqs'', ''SQS'')]
   \<and> card {n. has (invoke_all new_Registry
      [CallRegister test_heap ''redis'' (Object 2) (Some ''Redis''),
       CallRegister test_heap ''kafka'' (Object 3) (Some ''Kafka''),
       CallRegister test_heap ''sqs'' (Object 4) (Some ''SQS'')]) n} = 3"
proof -
  have a: "list (invoke_all new_Registry
      [CallRegister test_heap ''redis'' (Object 2) (Some ''Redis''),
       CallRegister test_heap ''kafka'' (Object 3) (Some ''Kafka''),
       CallRegister test_heap ''sqs'' (Object 4) (Some ''SQS'')])
     = [(''redis'', ''Redis''), (''kafka'', ''Kafka''), (''sqs'', ''SQS'')]"
    by (simp add: registry_eval)
  show ?thesis
    using a list_registered[of "[CallRegister test_heap ''redis'' (Object 2) (Some ''Redis''),
       CallRegister test_heap ''kafka'' (Object 3) (Some ''Kafka''),
       CallRegister test_heap ''sqs'' (Object 4) (Some ''SQS'')]"]
    by simp
qed

subsection \<open>C7: has tells whether a name is present\<close>

text \<open>
  What holds of \<open>has\<close> in every registry: \<open>has(m)\<close> returns, without a throw and
  without a change, whether \<open>m\<close> is a key of the map, which is whether \<open>getEntry(m)\<close>
  finds an entry; and when \<open>register(n, x, type?)\<close> returns, \<open>has(n)\<close> was false before
  the call and is true after it.
\<close>

lemma has_iff_present:
  "(has r m \<longleftrightarrow> (\<exists>e. getEntry r m = Some e))
   \<and> (has r m \<longleftrightarrow> m \<in> fst ` set (entries r))
   \<and> invoke r (CallHas m) = (Inr (Flag (has r m)), r)
   \<and> (fst (register h r n x t) = Inr () \<longrightarrow>
        \<not> has r n \<and> has (snd (register h r n x t)) n)"
proof -
  have "has r m \<longleftrightarrow> (\<exists>e. getEntry r m = Some e)"
    by (simp add: has_via_getEntry)
  moreover have "has r m \<longleftrightarrow> m \<in> fst ` set (entries r)"
    by (simp add: has_def Map_has_def)
  moreover have "\<not> has r n \<and> has (snd (register h r n x t)) n"
    if "fst (register h r n x t) = Inr ()"
    using that by (auto simp: register_cases has_def Map_has_def split: if_splits)
  ultimately show ?thesis by simp
qed

text \<open>
  For a name that is not registered, \<open>has(n)\<close> is true after \<open>register(n, x, type?)\<close>
  exactly when \<open>x\<close> is neither \<open>undefined\<close> nor \<open>null\<close>.
\<close>

lemma has_after_register:
  assumes "\<not> has r n"
  shows "has (snd (register h r n x t)) n \<longleftrightarrow> x \<noteq> Undefined \<and> x \<noteq> Null"
  using assms by (auto simp: register_cases has_def Map_has_def)

text \<open>
  C7. For a name \<open>n\<close> that is not registered, \<open>has(n)\<close> is to be false before
  \<open>register(n, x)\<close> and true after it. With \<open>x = null\<close> the code does not get there: in
  a new registry \<open>has(n)\<close> is false, the property read of line 32, which its comment
  calls safe, throws a TypeError, nothing is stored, and \<open>has(n)\<close> is false after the
  call as it was before.
\<close>

theorem register_null_not_present:
  "\<not> has new_Registry ''n''
   \<and> register test_heap new_Registry ''n'' Null None = (Inl TypeError, new_Registry)
   \<and> \<not> has (snd (register test_heap new_Registry ''n'' Null None)) ''n''"
  by (simp add: registry_eval)

subsection \<open>C8: clear empties the registry\<close>

text \<open>
  C8. \<open>clear()\<close> returns without a throw; after it no name is present, \<open>list()\<close> is
  empty and \<open>get\<close> fails on every name; clearing twice is clearing once, and clearing a
  registry that holds no name leaves it as it was.
\<close>

theorem clear_removes_all:
  "invoke r CallClear = (Inr Void, clear r)
   \<and> \<not> has (clear r) n
   \<and> list (clear r) = []
   \<and> get (clear r) n = Inl (NotFoundError n)
   \<and> clear (clear r) = clear r
   \<and> ((\<forall>m. \<not> has r0 m) \<longrightarrow> clear r0 = r0)"
proof -
  have "clear r0 = r0" if "\<forall>m. \<not> has r0 m"
  proof -
    from that have "entries r0 = []" using list_empty_iff[of r0]
      by (simp add: list_def Map_values_def)
    then show ?thesis by (simp add: clear_def Map_clear_def)
  qed
  then show ?thesis
    by (simp add: clear_def Map_clear_def has_def Map_has_def list_def Map_values_def
        get_via_getEntry getEntry_def Map_get_def)
qed

text \<open>A registry holding two names, and a new one.\<close>

theorem clear_removes_all_witness:
  "(\<forall>m. \<not> has new_Registry m)
   \<and> clear new_Registry = new_Registry
   \<and> has (invoke_all new_Registry
        [CallRegister test_heap ''test1'' (Object 2) None,
         CallRegister test_heap ''test2'' (Object 3) None]) ''test1''
   \<and> \<not> has (clear (invoke_all new_Registry
        [CallRegister test_heap ''test1'' (Object 2) None,
         CallRegister test_heap ''test2'' (Object 3) None])) ''test1''
   \<and> list (clear (invoke_all new_Registry
        [CallRegister test_heap ''test1'' (Object 2) None,
         CallRegister test_heap ''test2'' (Object 3) None])) = []"
proof -
  have a: "\<forall>m. \<not> has new_Registry m"
    by (simp add: registry_eval)
  have b: "has (invoke_all new_Registry
        [CallRegister test_heap ''test1'' (Object 2) None,
         CallRegister test_heap ''test2'' (Object 3) None]) ''test1''"
    by (simp add: registry_eval)
  show ?thesis
    using a b clear_removes_all[of "invoke_all new_Registry
        [CallRegister test_heap ''test1'' (Object 2) None,
         CallRegister test_heap ''test2'' (Object 3) None]" "''test1''" new_Registry]
    by simp
qed

subsection \<open>C9: getEntry returns the entry or undefined\<close>



subsection \<open>C10: an empty type argument counts as none\<close>

text \<open>
  C10. \<open>register(n, x, "")\<close> does what \<open>register(n, x)\<close> does, and when it returns,
  the entry stored under \<open>n\<close> does not carry the empty label that was supplied: its
  label is the name of the constructor that \<open>x.constructor\<close> reads to, when there is
  one and its name is a non-empty string, and \<open>Unknown\<close> otherwise.
\<close>

theorem register_empty_type:
  "register h r n x (Some []) = register h r n x None
   \<and> (fst (register h r n x (Some [])) = Inr () \<longrightarrow>
        (\<exists>c. read_constructor h x = Inr c
           \<and> map_option type (getEntry (snd (register h r n x (Some []))) n) =
               Some (case optional_name h c of
                       None \<Rightarrow> ''Unknown''
                     | Some s \<Rightarrow> if s = [] then ''Unknown'' else s)
           \<and> map_option type (getEntry (snd (register h r n x (Some []))) n) \<noteq> Some []))"
proof -
  have "\<exists>c. read_constructor h x = Inr c
           \<and> map_option type (getEntry (snd (register h r n x (Some []))) n) =
               Some (case optional_name h c of
                       None \<Rightarrow> ''Unknown''
                     | Some s \<Rightarrow> if s = [] then ''Unknown'' else s)
           \<and> map_option type (getEntry (snd (register h r n x (Some []))) n) \<noteq> Some []"
    if ok: "fst (register h r n x (Some [])) = Inr ()"
  proof -
    from ok have s: "register h r n x (Some []) = (Inr (), snd (register h r n x (Some [])))"
      by (metis prod.collapse)
    have "\<exists>c. read_constructor h x = Inr c"
      using register_success(2,3)[OF s] by (cases x) simp_all
    then show ?thesis using getEntry_registered[OF s]
      by (auto simp: or_string_def split: option.splits)
  qed
  moreover have "register h r n x (Some []) = register h r n x None"
    by (simp add: register_def or_string_def Let_def split: sum.splits)
  ultimately show ?thesis by simp
qed

text \<open>
  The instance of \<open>TestClass\<close> and the object without a constructor, each registered
  with the empty string as its type.
\<close>

theorem register_empty_type_witness:
  "fst (register test_heap new_Registry ''test'' (Object 0) (Some [])) = Inr ()
   \<and> map_option type
        (getEntry (snd (register test_heap new_Registry ''test'' (Object 0) (Some []))) ''test'')
     = Some ''TestClass''
   \<and> fst (register test_heap new_Registry ''bare'' (Object 5) (Some [])) = Inr ()
   \<and> map_option type
        (getEntry (snd (register test_heap new_Registry ''bare'' (Object 5) (Some []))) ''bare'')
     = Some ''Unknown''"
proof -
  have a: "fst (register test_heap new_Registry ''test'' (Object 0) (Some [])) = Inr ()"
    by (simp add: registry_eval)
  have b: "fst (register test_heap new_Registry ''bare'' (Object 5) (Some [])) = Inr ()"
    by (simp add: registry_eval)
  show ?thesis
    using a b
      register_empty_type[of test_heap new_Registry "''test''" "Object 0"]
      register_empty_type[of test_heap new_Registry "''bare''" "Object 5"]
    by (auto simp: test_heap_def optional_name_def)
qed

end
